theory Spec2Isabelle
  imports Complex_Main
begin

section \<open>Tensors\<close>

text \<open>
  The masks of \<^verbatim>\<open>src/utils/torch.py\<close> are torch tensors holding the numbers 0 and 1.
  \<^verbatim>\<open>MaskUpdate.update\<close> subtracts and adds them and feeds them to \<^verbatim>\<open>F.dropout\<close>, which
  needs a floating dtype. A tensor is modelled by its dtype tag, its shape and its
  elements in row-major order; a tensor is well formed when it has as many elements as
  its shape says. Elements are rationals: the float arithmetic of the source is
  idealised, which is exact for the values 0, 1 and the small integers that occur in
  masks. The device of a tensor is not modelled.
\<close>

datatype dtype = Float16 | BFloat16 | Float32 | Float64

record tensor =
  dtype :: dtype
  shape :: "nat list"
  elems :: "rat list"

definition wf_tensor :: "tensor \<Rightarrow> bool" where
  "wf_tensor t \<longleftrightarrow> length (elems t) = prod_list (shape t)"

text \<open>The exceptions of the source and of its libraries. \<open>Unmodelled\<close> is no exception:
  it marks the inputs of the grower that lie outside this model (see \<open>as_image\<close>).\<close>

datatype error =
  ZeroDivisionError | ValueError | OverflowError | TypeError | IndexError | Cv2Error
  | Unmodelled

text \<open>The uniform draw in [0, 1) that the random generator supplies for the sample at a
  (row-major) index during one call.\<close>

type_synonym noise = "nat \<Rightarrow> rat"

definition imap :: "(nat \<Rightarrow> 'a \<Rightarrow> 'b) \<Rightarrow> 'a list \<Rightarrow> 'b list" where
  "imap f xs = map (\<lambda>i. f i (xs ! i)) [0..<length xs]"

definition map_t :: "(rat \<Rightarrow> rat) \<Rightarrow> tensor \<Rightarrow> tensor" where
  "map_t f t = t\<lparr>elems := map f (elems t)\<rparr>"

definition imap_t :: "(nat \<Rightarrow> rat \<Rightarrow> rat) \<Rightarrow> tensor \<Rightarrow> tensor" where
  "imap_t f t = t\<lparr>elems := imap f (elems t)\<rparr>"

definition zip_t :: "(rat \<Rightarrow> rat \<Rightarrow> rat) \<Rightarrow> tensor \<Rightarrow> tensor \<Rightarrow> tensor" where
  "zip_t f a b = a\<lparr>elems := map2 f (elems a) (elems b)\<rparr>"

text \<open>Elementwise \<^verbatim>\<open>a - b\<close> and \<^verbatim>\<open>a + b\<close> of two tensors of one shape and dtype, as
  the two masks of a scheduler are: both come from the mask given to the constructor, and
  the grower keeps shape and dtype. Operands of different shapes, which torch broadcasts
  or refuses, are outside the model (it would cut them to their common part); every
  statement below about a sum or a difference has operands of one shape.\<close>

definition tensor_sub :: "tensor \<Rightarrow> tensor \<Rightarrow> tensor" where
  "tensor_sub a b = zip_t (\<lambda>x y. x - y) a b"

definition tensor_add :: "tensor \<Rightarrow> tensor \<Rightarrow> tensor" where
  "tensor_add a b = zip_t (\<lambda>x y. x + y) a b"

text \<open>A mask is boolean when every sample is 0 or 1; \<open>a\<close> is a sample-wise subset of \<open>b\<close>
  when both have one shape and every sample set in \<open>a\<close> is set in \<open>b\<close>.\<close>

definition is_mask :: "tensor \<Rightarrow> bool" where
  "is_mask t = list_all (\<lambda>x. x = 0 \<or> x = 1) (elems t)"

definition subset_mask :: "tensor \<Rightarrow> tensor \<Rightarrow> bool" where
  "subset_mask a b \<longleftrightarrow>
     shape a = shape b \<and> list_all2 (\<lambda>x y. x \<noteq> 0 \<longrightarrow> y \<noteq> 0) (elems a) (elems b)"

definition all_false :: "tensor \<Rightarrow> bool" where
  "all_false t = list_all (\<lambda>x. x = 0) (elems t)"

section \<open>The morphological grower: \<^verbatim>\<open>dilate_mask\<close>\<close>

text \<open>
  \<^verbatim>\<open>cv2.dilate(src, kernel, iterations)\<close> is OpenCV's: with the default anchor (the kernel
  centre, \<open>(cols div 2, rows div 2)\<close>) and the default border (samples outside the image
  never win the maximum) one pass computes
  \<open>dst(y, x) = max {src(y + dy, x + dx) | kernel(dy + ay, dx + ax) \<noteq> 0}\<close>;
  \<^verbatim>\<open>iterations\<close> passes are applied in turn. The destination has the size of the source.
  An image is the list of its lines.
\<close>

definition kernel_offsets :: "nat list list \<Rightarrow> (int \<times> int) list" where
  "kernel_offsets kern =
     (let ay = int (length kern div 2);
          ax = int ((case kern of [] \<Rightarrow> 0 | r # _ \<Rightarrow> length r) div 2)
      in concat (imap (\<lambda>y row. concat (imap (\<lambda>x e.
           if e \<noteq> 0 then [(int y - ay, int x - ax)] else []) row)) kern))"

definition pixel :: "nat list list \<Rightarrow> int \<Rightarrow> int \<Rightarrow> nat" where
  "pixel img y x =
     (if 0 \<le> y \<and> y < int (length img) \<and> 0 \<le> x \<and> x < int (length (img ! nat y))
      then img ! nat y ! nat x else 0)"

definition dilate_pass :: "(int \<times> int) list \<Rightarrow> nat list list \<Rightarrow> nat list list" where
  "dilate_pass offs img =
     imap (\<lambda>y. imap (\<lambda>x _.
       fold max (map (\<lambda>(dy, dx). pixel img (int y + dy) (int x + dx)) offs) 0)) img"

definition dilate :: "nat list list \<Rightarrow> nat list list \<Rightarrow> nat \<Rightarrow> nat list list" where
  "dilate src kern iterations = (dilate_pass (kernel_offsets kern) ^^ iterations) src"

text \<open>\<^verbatim>\<open>astype(np.uint8)\<close> of a float: exact on the integers 0 to 255, the values 0
  and 1 of a mask among them. Elsewhere the fraction is cut off (towards zero); an
  integer in the 32-bit range is kept modulo 256 and one beyond it gives 0, the result of
  the conversion on the usual 64-bit processors.\<close>

definition astype_uint8 :: "rat \<Rightarrow> nat" where
  "astype_uint8 x =
     (let t = (if 0 \<le> x then \<lfloor>x\<rfloor> else \<lceil>x\<rceil>)
      in if - (2 ^ 31) \<le> t \<and> t < 2 ^ 31 then nat (t mod 256) else 0)"

text \<open>\<^verbatim>\<open>squeeze()\<close> drops the axes of size 1. Slice \<open>i\<close> along the leading axis of an array
  whose slices have \<open>k\<close> elements is the run of elements from \<open>i * k\<close>.\<close>

definition squeeze :: "nat list \<Rightarrow> nat list" where
  "squeeze sh = filter (\<lambda>d. d \<noteq> 1) sh"

definition slices :: "nat \<Rightarrow> nat \<Rightarrow> 'a list \<Rightarrow> 'a list list" where
  "slices n k xs = map (\<lambda>i. take k (drop (i * k) xs)) [0..<n]"

text \<open>
  What \<^verbatim>\<open>cv2.dilate\<close> makes of one slice \<^verbatim>\<open>mask_np[i]\<close>, by the shape of the slice: a
  scalar (the squeezed array has one axis) is refused with \<^verbatim>\<open>cv2.error\<close>; a 1-D array
  is an image of one line; a 2-D array is an image. A slice without elements and a slice
  of three or more axes (read by OpenCV as a multi-channel or n-dimensional array) are
  outside this model.
\<close>

definition as_image :: "nat list \<Rightarrow> nat list \<Rightarrow> error + nat list list" where
  "as_image sh m =
     (if prod_list sh = 0 then Inl Unmodelled
      else case sh of
        [] \<Rightarrow> Inl Cv2Error
      | [w] \<Rightarrow> Inr [m]
      | [h, w] \<Rightarrow> Inr (slices h w m)
      | _ \<Rightarrow> Inl Unmodelled)"

text \<open>One turn of the loop: \<^verbatim>\<open>m = mask_np[i].astype(np.uint8)\<close>, then
  \<^verbatim>\<open>dilate(m, kernel, iterations=iterations)\<close> with \<^verbatim>\<open>kernel = np.ones((2, 2), np.uint8)\<close>,
  then the conversion back to the dtype of \<^verbatim>\<open>mask_res\<close> on assignment.\<close>

definition dilate_slice :: "nat list \<Rightarrow> nat \<Rightarrow> rat list \<Rightarrow> error + rat list" where
  "dilate_slice sh iterations sl =
     (let kern = [[1, 1], [1, 1]];
          m = map astype_uint8 sl
      in case as_image sh m of
           Inl e \<Rightarrow> Inl e
         | Inr img \<Rightarrow> Inr (map of_nat (concat (dilate img kern iterations))))"

text \<open>The results of the turns of a loop, up to the first exception.\<close>

fun collect :: "(error + 'a) list \<Rightarrow> error + 'a list" where
  "collect [] = Inr []"
| "collect (Inl e # rs) = Inl e"
| "collect (Inr v # rs) = (case collect rs of Inl e \<Rightarrow> Inl e | Inr vs \<Rightarrow> Inr (v # vs))"

text \<open>
  \<^verbatim>\<open>
  def dilate_mask(mask, iterations=1):
      kernel = np.ones((2, 2), np.uint8)
      ddtype = mask.dtype
      device = mask.device
      mask_np = mask.clone().detach().cpu().numpy()
      shape = mask_np.shape
      mask_np = mask_np.squeeze()
      mask_res = np.empty_like(mask_np)
      for i in range(mask_np.shape[0]):
          m = mask_np[i].astype(np.uint8)
          mask_res[i] = dilate(m, kernel, iterations=iterations)
      mask_res = torch.from_numpy(mask_res.reshape(shape)).type(ddtype).to(device)
      return mask_res
  \<close>
  The value computed. \<^verbatim>\<open>.numpy()\<close> raises TypeError on a BFloat16 tensor (numpy has no
  such dtype); \<^verbatim>\<open>mask_np.shape[0]\<close> raises IndexError when the squeezed array has no axis
  left; every slice of the leading axis of the squeezed array goes through
  \<open>dilate_slice\<close>; the result is given the shape and the dtype saved on entry.
\<close>

definition dilate_mask :: "tensor \<Rightarrow> nat \<Rightarrow> error + tensor" where
  "dilate_mask msk iterations =
     (let ddtype = dtype msk in
      if dtype msk = BFloat16 then Inl TypeError
      else case squeeze (shape msk) of
        [] \<Rightarrow> Inl IndexError
      | n # sh \<Rightarrow>
          (case collect (map (dilate_slice sh iterations)
                           (slices n (prod_list sh) (elems msk))) of
             Inl e \<Rightarrow> Inl e
           | Inr mask_res \<Rightarrow>
               Inr \<lparr>dtype = ddtype, shape = shape msk, elems = concat mask_res\<rparr>))"


text \<open>The masks whose slices this model covers: at most three axes left by
  \<^verbatim>\<open>squeeze\<close>, and no empty axis.\<close>

definition modelled :: "tensor \<Rightarrow> bool" where
  "modelled t \<longleftrightarrow> length (squeeze (shape t)) \<le> 3 \<and> 0 \<notin> set (shape t)"

section \<open>The stochastic thinner: \<^verbatim>\<open>F.dropout\<close> and the re-binarisation\<close>

text \<open>
  \<^verbatim>\<open>F.dropout(input, p)\<close> is PyTorch's, in training mode by default: it refuses a \<open>p\<close>
  outside [0, 1] with a ValueError, returns the input for \<open>p = 0\<close> and zeros for
  \<open>p = 1\<close>, and otherwise multiplies every sample by a Bernoulli(\<open>1 - p\<close>) draw divided by
  \<open>1 - p\<close>: a sample is zeroed with probability \<open>p\<close> and scaled by \<open>1 / (1 - p)\<close> when it
  survives. The Bernoulli draw at an index succeeds when the uniform draw there is below
  \<open>1 - p\<close>.
\<close>

definition dropout :: "tensor \<Rightarrow> rat \<Rightarrow> noise \<Rightarrow> error + tensor" where
  "dropout input p u =
     (if p < 0 \<or> 1 < p then Inl ValueError
      else if p = 0 then Inr input
      else if p = 1 then Inr (map_t (\<lambda>x. x * 0) input)
      else Inr (imap_t (\<lambda>i x. x * ((if u i < 1 - p then 1 else 0) / (1 - p))) input))"

text \<open>\<^verbatim>\<open>mask_add[mask_add != 0] = 1\<close>\<close>

definition binarize :: "tensor \<Rightarrow> tensor" where
  "binarize t = map_t (\<lambda>x. if x \<noteq> 0 then 1 else x) t"

text \<open>Lines 237 and 238 of the source, the thinner of the scheduler:
  \<^verbatim>\<open>mask_add = F.dropout(delta, p); mask_add[mask_add != 0] = 1\<close>.\<close>

definition thin :: "tensor \<Rightarrow> rat \<Rightarrow> noise \<Rightarrow> error + tensor" where
  "thin delta p u =
     (case dropout delta p u of Inl e \<Rightarrow> Inl e | Inr mask_add \<Rightarrow> Inr (binarize mask_add))"

section \<open>The scheduler: \<^verbatim>\<open>MaskUpdate\<close>\<close>

text \<open>
  \<^verbatim>\<open>
  class MaskUpdate:
      def __init__(self, mask, threshold, step) -> None:
          self.threshold = threshold
          self.step = step
          self.iter = 0
          self.new_mask = mask
          self.old_mask = mask

      def update(self, iiter):
          mask_return = self.old_mask
          if iiter > self.threshold:
              iiter_dil = (iiter - self.threshold) // self.step + 1
              if iiter_dil > self.iter:
                  self.old_mask = self.new_mask
                  self.new_mask = dilate_mask(self.old_mask)
                  self.iter = iiter_dil
              iter_drop = (iiter - self.threshold) % self.step
              p = 1. - 1. / self.step * (iter_drop + 1)
              mask_add = F.dropout(self.new_mask - self.old_mask, p)
              mask_add[mask_add != 0] = 1

              mask_return = self.old_mask + mask_add
          return mask_return
  \<close>
  The object is a record; \<^verbatim>\<open>update\<close> returns the value or the exception together with
  the object as the call leaves it: an exception of the grower leaves \<open>old_mask\<close>
  overwritten and \<open>new_mask\<close> and \<open>iter\<close> as they were, a later exception leaves the grown
  fields behind. Python's \<^verbatim>\<open>//\<close> and \<^verbatim>\<open>%\<close> on integers are \<open>div\<close> and \<open>mod\<close> on \<open>int\<close>, and
  both raise ZeroDivisionError for a zero divisor. \<^verbatim>\<open>1. / self.step\<close> converts the step to
  a float and raises OverflowError when it is too large for one; the probability itself
  is computed in exact rationals (the float result differs by rounding, and stays in
  [0, 1] for a positive step).
\<close>

record MaskUpdate =
  threshold :: int
  step :: int
  iter :: int
  new_mask :: tensor
  old_mask :: tensor

definition init :: "tensor \<Rightarrow> int \<Rightarrow> int \<Rightarrow> MaskUpdate" where
  "init msk thr st =
     \<lparr>threshold = thr, step = st, iter = 0, new_mask = msk, old_mask = msk\<rparr>"

text \<open>The locals of \<^verbatim>\<open>update\<close>, named so that statements can speak of them:
  \<^verbatim>\<open>iiter_dil\<close> (the target epoch), \<^verbatim>\<open>iter_drop\<close> (the offset in the epoch) and \<^verbatim>\<open>p\<close> (the
  probability handed to \<^verbatim>\<open>F.dropout\<close>).\<close>

definition iiter_dil_of :: "MaskUpdate \<Rightarrow> int \<Rightarrow> int" where
  "iiter_dil_of s iiter = (iiter - threshold s) div step s + 1"

definition iter_drop_of :: "MaskUpdate \<Rightarrow> int \<Rightarrow> int" where
  "iter_drop_of s iiter = (iiter - threshold s) mod step s"

definition p_of :: "MaskUpdate \<Rightarrow> int \<Rightarrow> rat" where
  "p_of s iiter = 1 - 1 / of_int (step s) * of_int (iter_drop_of s iiter + 1)"

text \<open>An integer converts to a float when it rounds to a finite double.\<close>

definition float_ok :: "int \<Rightarrow> bool" where
  "float_ok n \<longleftrightarrow> \<bar>n\<bar> < 2 ^ 1024 - 2 ^ 970"

text \<open>Lines 235 to 240: the thinning and the sum, on the fields as the growth step
  left them.\<close>

definition finish :: "MaskUpdate \<Rightarrow> int \<Rightarrow> noise \<Rightarrow> (error + tensor) \<times> MaskUpdate" where
  "finish s iiter u =
     (if \<not> float_ok (step s) then (Inl OverflowError, s)
      else
        let p = p_of s iiter in
        case thin (tensor_sub (new_mask s) (old_mask s)) p u of
          Inl e \<Rightarrow> (Inl e, s)
        | Inr mask_add \<Rightarrow> (Inr (tensor_add (old_mask s) mask_add), s))"

definition update :: "MaskUpdate \<Rightarrow> int \<Rightarrow> noise \<Rightarrow> (error + tensor) \<times> MaskUpdate" where
  "update s iiter u =
     (let mask_return = old_mask s in
      if iiter > threshold s then
        if step s = 0 then (Inl ZeroDivisionError, s)
        else
          let iiter_dil = iiter_dil_of s iiter in
          if iiter_dil > iter s then
            let s1 = s\<lparr>old_mask := new_mask s\<rparr> in
            case dilate_mask (old_mask s1) 1 of
              Inl e \<Rightarrow> (Inl e, s1)
            | Inr grown \<Rightarrow> finish (s1\<lparr>new_mask := grown, iter := iiter_dil\<rparr>) iiter u
          else finish s iiter u
      else (Inr mask_return, s))"

text \<open>A run of calls: each call starts from the object the previous one left (a caller
  that catches an exception goes on with the object as the failed call left it).\<close>

fun run :: "MaskUpdate \<Rightarrow> (int \<times> noise) list \<Rightarrow> MaskUpdate" where
  "run s [] = s"
| "run s ((iiter, u) # calls) = run (snd (update s iiter u)) calls"


text \<open>The masks of a scheduler are well formed and boolean, and the old one lies inside
  the new one.\<close>

definition mask_inv :: "MaskUpdate \<Rightarrow> bool" where
  "mask_inv s \<longleftrightarrow>
     wf_tensor (old_mask s) \<and> wf_tensor (new_mask s) \<and>
     is_mask (old_mask s) \<and> is_mask (new_mask s) \<and> subset_mask (old_mask s) (new_mask s)"

section \<open>\<^verbatim>\<open>dilate_mask\<close> on a store of arrays\<close>

text \<open>
  To say that \<^verbatim>\<open>dilate_mask\<close> leaves its argument alone, arrays live in a store and are
  named by their address. \<^verbatim>\<open>mask.clone()\<close> allocates a copy, which \<^verbatim>\<open>.numpy()\<close> and
  \<^verbatim>\<open>squeeze()\<close> then view with the squeezed shape; \<^verbatim>\<open>np.empty_like(mask_np)\<close> allocates the
  result (its uninitialised contents are taken to be zeros: the loop overwrites every
  slice); the loop reads slice \<open>i\<close> of the copy and writes slice \<open>i\<close> of \<^verbatim>\<open>mask_res\<close>, and
  stops at the first exception; \<^verbatim>\<open>reshape\<close> and \<^verbatim>\<open>from_numpy\<close> view the result with the
  shape saved on entry, and \<^verbatim>\<open>.type(ddtype)\<close> restores the dtype. A call gives the address
  of the result or the exception, and the store as it leaves it. \<open>None\<close> stands for an
  address that names no array, which a Python reference never is.
\<close>

type_synonym heap = "tensor list"

definition alloc :: "heap \<Rightarrow> tensor \<Rightarrow> nat \<times> heap" where
  "alloc h t = (length h, h @ [t])"

definition store_slice :: "heap \<Rightarrow> nat \<Rightarrow> nat \<Rightarrow> nat \<Rightarrow> rat list \<Rightarrow> heap" where
  "store_slice h r i k sl =
     h[r := (h ! r)\<lparr>elems := take (i * k) (elems (h ! r)) @ sl @
                              drop (i * k + k) (elems (h ! r))\<rparr>]"

fun dilate_loop ::
  "heap \<Rightarrow> nat \<Rightarrow> nat \<Rightarrow> nat list \<Rightarrow> nat \<Rightarrow> nat list \<Rightarrow> error option \<times> heap" where
  "dilate_loop h mask_np mask_res sh iterations [] = (None, h)"
| "dilate_loop h mask_np mask_res sh iterations (i # rest) =
     (case dilate_slice sh iterations
             (take (prod_list sh) (drop (i * prod_list sh) (elems (h ! mask_np)))) of
        Inl e \<Rightarrow> (Some e, h)
      | Inr sl \<Rightarrow>
          dilate_loop (store_slice h mask_res i (prod_list sh) sl)
            mask_np mask_res sh iterations rest)"

definition dilate_mask_heap ::
  "heap \<Rightarrow> nat \<Rightarrow> nat \<Rightarrow> ((error + nat) \<times> heap) option" where
  "dilate_mask_heap h msk iterations =
     (if msk < length h then
        let ddtype = dtype (h ! msk);
            (clone, h1) = alloc h (h ! msk)
        in if ddtype = BFloat16 then Some (Inl TypeError, h1)
           else
             let shp = shape (h1 ! clone);
                 h2 = h1[clone := (h1 ! clone)\<lparr>shape := squeeze shp\<rparr>];
                 mask_np = clone;
                 (mask_res, h3) = alloc h2 (map_t (\<lambda>_. 0) (h2 ! mask_np))
             in case shape (h3 ! mask_np) of
                  [] \<Rightarrow> Some (Inl IndexError, h3)
                | n # sh \<Rightarrow>
                    (case dilate_loop h3 mask_np mask_res sh iterations [0..<n] of
                       (Some e, h4) \<Rightarrow> Some (Inl e, h4)
                     | (None, h4) \<Rightarrow>
                         Some (Inr mask_res,
                               h4[mask_res := (h4 ! mask_res)\<lparr>shape := shp, dtype := ddtype\<rparr>]))
      else None)"

section \<open>Concrete inputs\<close>

text \<open>The line of 8 positions of the end-to-end scenario, position 3 revealed, as a
  tensor of shape (1, 1, 8), and the line with positions 3 and 4; two such lines as a
  tensor of shape (2, 8), before and after one and two growth steps; a mask of two
  planes of 3 by 3 samples and what one and two growth steps make of it; two sources of
  draws.\<close>

definition line_mask :: tensor where
  "line_mask = \<lparr>dtype = Float32, shape = [1, 1, 8], elems = [0, 0, 0, 1, 0, 0, 0, 0]\<rparr>"

definition line_grown :: tensor where
  "line_grown = \<lparr>dtype = Float32, shape = [1, 1, 8], elems = [0, 0, 0, 1, 1, 0, 0, 0]\<rparr>"




definition dot_mask :: tensor where
  "dot_mask = \<lparr>dtype = Float64, shape = [1, 2, 3, 3],
     elems = [0, 0, 0,  0, 1, 0,  0, 0, 0,   1, 0, 0,  0, 0, 0,  0, 0, 0]\<rparr>"

definition dot_grown :: tensor where
  "dot_grown = \<lparr>dtype = Float64, shape = [1, 2, 3, 3],
     elems = [0, 0, 0,  0, 1, 1,  0, 1, 1,   1, 1, 0,  1, 1, 0,  0, 0, 0]\<rparr>"

definition dot_grown2 :: tensor where
  "dot_grown2 = \<lparr>dtype = Float64, shape = [1, 2, 3, 3],
     elems = [0, 0, 0,  0, 1, 1,  0, 1, 1,   1, 1, 1,  1, 1, 1,  1, 1, 1]\<rparr>"

definition draw_zero :: noise where
  "draw_zero i = 0"

definition draw_half :: noise where
  "draw_half i = 1 / 2"

text \<open>A scheduler in its first epoch, with the fields set by hand, and the scheduler of
  two lines in its first and second epoch.\<close>

definition epoch1_state :: MaskUpdate where
  "epoch1_state =
     \<lparr>threshold = 10, step = 5, iter = 1, new_mask = line_grown, old_mask = line_mask\<rparr>"



section \<open>Lists and the dilation pass\<close>

lemma length_imap [simp]: "length (imap f xs) = length xs"
  by (simp add: imap_def)

lemma nth_imap [simp]: "i < length xs \<Longrightarrow> imap f xs ! i = f i (xs ! i)"
  by (simp add: imap_def)

lemma fold_max_ge_start: "(a::nat) \<le> fold max xs a"
  by (induction xs arbitrary: a) (auto intro: order_trans [OF max.cobounded2])

lemma fold_max_upper: "x \<in> set xs \<Longrightarrow> (x::nat) \<le> fold max xs a"
proof (induction xs arbitrary: a)
  case Nil
  then show ?case by simp
next
  case (Cons y ys)
  show ?case
  proof (cases "x = y")
    case True
    have "y \<le> max y a" by simp
    also have "\<dots> \<le> fold max ys (max y a)" by (rule fold_max_ge_start)
    finally show ?thesis using True by simp
  next
    case False
    with Cons.prems have "x \<in> set ys" by simp
    then show ?thesis using Cons.IH by simp
  qed
qed

lemma fold_max_bound: "\<forall>x \<in> set xs. x \<le> b \<Longrightarrow> a \<le> b \<Longrightarrow> fold max xs a \<le> (b::nat)"
  by (induction xs arbitrary: a) auto

lemma kernel_offsets_ones:
  "kernel_offsets [[1, 1], [1, 1]] = [(- 1, - 1), (- 1, 0), (0, - 1), (0, 0)]"
  by (simp add: kernel_offsets_def imap_def upt_rec)

lemma length_dilate_pass [simp]: "length (dilate_pass offs img) = length img"
  by (simp add: dilate_pass_def)

lemma length_row_dilate_pass [simp]:
  "y < length img \<Longrightarrow> length (dilate_pass offs img ! y) = length (img ! y)"
  by (simp add: dilate_pass_def)

lemma row_lengths_dilate_pass: "map length (dilate_pass offs img) = map length img"
  by (rule nth_equalityI) simp_all

lemma row_lengths_dilate: "map length (dilate src kern n) = map length src"
  by (induction n) (simp_all add: dilate_def row_lengths_dilate_pass)

lemma length_concat_dilate: "length (concat (dilate src kern n)) = length (concat src)"
  by (simp add: length_concat row_lengths_dilate)

lemma nth_dilate_pass:
  "y < length img \<Longrightarrow> x < length (img ! y) \<Longrightarrow>
   dilate_pass offs img ! y ! x =
     fold max (map (\<lambda>(dy, dx). pixel img (int y + dy) (int x + dx)) offs) 0"
  by (simp add: dilate_pass_def)

lemma dilate_pass_extensive:
  assumes "(0, 0) \<in> set offs" "y < length img" "x < length (img ! y)"
  shows "img ! y ! x \<le> dilate_pass offs img ! y ! x"
proof -
  have "pixel img (int y + 0) (int x + 0)
          \<in> set (map (\<lambda>(dy, dx). pixel img (int y + dy) (int x + dx)) offs)"
    using assms(1) by (force simp del: add_0_right)
  then have "pixel img (int y) (int x) \<le> dilate_pass offs img ! y ! x"
    using assms(2,3) by (simp add: nth_dilate_pass fold_max_upper)
  then show ?thesis using assms(2,3) by (simp add: pixel_def)
qed

lemma pixel_bound:
  "(\<And>y x. y < length img \<Longrightarrow> x < length (img ! y) \<Longrightarrow> img ! y ! x \<le> b) \<Longrightarrow>
   pixel img r c \<le> b"
  by (auto simp: pixel_def nat_less_iff)

lemma dilate_pass_bound:
  assumes "\<And>y x. y < length img \<Longrightarrow> x < length (img ! y) \<Longrightarrow> img ! y ! x \<le> b"
    and "y < length img" "x < length (img ! y)"
  shows "dilate_pass offs img ! y ! x \<le> b"
proof -
  have "\<forall>v \<in> set (map (\<lambda>(dy, dx). pixel img (int y + dy) (int x + dx)) offs). v \<le> b"
    using pixel_bound [of img b, OF assms(1)] by auto
  then show ?thesis using assms(2,3) by (simp add: nth_dilate_pass fold_max_bound)
qed

lemma list_all2_concatI:
  "list_all2 (list_all2 R) xss yss \<Longrightarrow> list_all2 R (concat xss) (concat yss)"
  by (induction rule: list_all2_induct) (auto intro: list_all2_appendI)

text \<open>One pass with the 2 by 2 kernel on an image of zeros and ones: every sample of
  the image is below the sample of the result at its place, which is again 0 or 1.\<close>

lemma dilate_ones_rel:
  assumes "\<forall>row \<in> set img. \<forall>v \<in> set row. v \<le> 1"
  shows "list_all2 (list_all2 (\<lambda>a b. a \<le> b \<and> b \<le> 1)) img (dilate img [[1, 1], [1, 1]] 1)"
proof -
  let ?offs = "kernel_offsets [[1, 1], [1, 1]]"
  have zero: "(0, 0) \<in> set ?offs" by (simp only: kernel_offsets_ones, simp)
  have b: "\<And>y x. y < length img \<Longrightarrow> x < length (img ! y) \<Longrightarrow> img ! y ! x \<le> 1"
    using assms by (meson nth_mem)
  have "list_all2 (list_all2 (\<lambda>a b. a \<le> b \<and> b \<le> 1)) img (dilate_pass ?offs img)"
    unfolding list_all2_conv_all_nth
    using dilate_pass_extensive [OF zero] dilate_pass_bound [of img 1, OF b] by simp
  then show ?thesis by (simp add: dilate_def)
qed

section \<open>Slices and loops\<close>

lemma length_slices [simp]: "length (slices n k xs) = n"
  by (simp add: slices_def)

lemma nth_slices: "i < n \<Longrightarrow> slices n k xs ! i = take k (drop (i * k) xs)"
  by (simp add: slices_def)

lemma slices_Suc: "slices (Suc n) k xs = slices n k xs @ [take k (drop (n * k) xs)]"
  by (simp add: slices_def)

lemma concat_slices: "n * k \<le> length xs \<Longrightarrow> concat (slices n k xs) = take (n * k) xs"
proof (induction n)
  case 0
  then show ?case by (simp add: slices_def)
next
  case (Suc n)
  then have "concat (slices n k xs) = take (n * k) xs" by simp
  then have "concat (slices (Suc n) k xs) = take (n * k) xs @ take k (drop (n * k) xs)"
    by (simp add: slices_Suc)
  also have "\<dots> = take (n * k + k) xs" by (simp add: take_add)
  finally show ?case by (simp add: add.commute)
qed

lemma concat_slices_all: "length xs = n * k \<Longrightarrow> concat (slices n k xs) = xs"
  by (simp add: concat_slices)

lemma length_slice:
  "length xs = n * k \<Longrightarrow> sl \<in> set (slices n k xs) \<Longrightarrow> length sl = k"
proof -
  assume len: "length xs = n * k" and "sl \<in> set (slices n k xs)"
  then obtain i where i: "i < n" and sl: "sl = take k (drop (i * k) xs)"
    by (auto simp: slices_def)
  have "Suc i * k \<le> n * k" using i by (intro mult_le_mono1) simp
  then have "i * k + k \<le> length xs" using len by simp
  then show ?thesis using sl by simp
qed

lemma set_slice: "sl \<in> set (slices n k xs) \<Longrightarrow> set sl \<subseteq> set xs"
  by (auto simp: slices_def dest!: in_set_takeD in_set_dropD)

lemma collect_Inr_iff: "collect (map f xs) = Inr rs \<longleftrightarrow> map f xs = map Inr rs"
proof (induction xs arbitrary: rs)
  case Nil
  then show ?case by auto
next
  case (Cons x xs)
  show ?case
  proof (cases "f x")
    case (Inl e)
    then show ?thesis by (cases rs) auto
  next
    case v: (Inr v)
    show ?thesis
    proof (cases "collect (map f xs)")
      case (Inl e)
      then have "\<And>rs'. map f xs \<noteq> map Inr rs'" using Cons.IH by auto
      then show ?thesis using v Inl by (cases rs) auto
    next
      case (Inr vs)
      then have "map f xs = map Inr vs" using Cons.IH by simp
      then show ?thesis using v Inr by (cases rs) (auto simp: inj_map_eq_map)
    qed
  qed
qed

lemma collect_Inr_all2:
  "collect (map f xs) = Inr rs \<Longrightarrow> list_all2 (\<lambda>x r. f x = Inr r) xs rs"
  by (simp add: collect_Inr_iff list_all2_conv_all_nth list_eq_iff_nth_eq)


lemma collect_Inl:
  "collect (map f xs) = Inl e \<Longrightarrow> \<exists>x \<in> set xs. f x = Inl e"
proof (induction xs)
  case Nil
  then show ?case by simp
next
  case (Cons x xs)
  then show ?case by (cases "f x") (auto split: sum.splits)
qed

section \<open>The grower\<close>

lemma prod_list_squeeze [simp]: "prod_list (squeeze sh) = prod_list sh"
  by (induction sh) (simp_all add: squeeze_def)

lemma as_image_concat:
  "as_image sh m = Inr img \<Longrightarrow> length m = prod_list sh \<Longrightarrow> concat img = m"
  by (auto simp: as_image_def concat_slices_all split: if_splits list.splits)


lemma as_image_modelled:
  "length sh \<le> 2 \<Longrightarrow> prod_list sh \<noteq> 0 \<Longrightarrow> as_image sh m \<noteq> Inl Unmodelled"
  by (auto simp: as_image_def split: list.splits)

lemma dilate_slice_length:
  assumes "dilate_slice sh it sl = Inr r" "length sl = prod_list sh"
  shows "length r = length sl"
proof -
  from assms(1) obtain img where img: "as_image sh (map astype_uint8 sl) = Inr img"
    and r: "r = map of_nat (concat (dilate img [[1, 1], [1, 1]] it))"
    by (auto simp: dilate_slice_def split: sum.splits)
  have "concat img = map astype_uint8 sl"
    using as_image_concat [OF img] assms(2) by simp
  then have "length (concat img) = length sl" by simp
  then show ?thesis by (simp add: r length_concat_dilate)
qed


lemma dilate_slice_modelled:
  "length sh \<le> 2 \<Longrightarrow> prod_list sh \<noteq> 0 \<Longrightarrow> dilate_slice sh it sl \<noteq> Inl Unmodelled"
  using as_image_modelled [of sh "map astype_uint8 sl"]
  by (auto simp: dilate_slice_def split: sum.splits)

lemma astype_uint8_bool [simp]: "astype_uint8 0 = 0" "astype_uint8 1 = 1"
  by (simp_all add: astype_uint8_def)

lemma dilate_slice_bool:
  assumes r: "dilate_slice sh 1 sl = Inr r" and len: "length sl = prod_list sh"
    and bool: "\<forall>x \<in> set sl. x = 0 \<or> x = 1"
  shows "list_all2 (\<lambda>x y. (x \<noteq> 0 \<longrightarrow> y \<noteq> 0) \<and> (y = 0 \<or> y = 1)) sl r"
proof -
  let ?m = "map astype_uint8 sl"
  let ?R = "\<lambda>(a::nat) b. a \<le> b \<and> b \<le> 1"
  from r obtain img where img: "as_image sh ?m = Inr img"
    and rd: "r = map of_nat (concat (dilate img [[1, 1], [1, 1]] 1))"
    by (auto simp: dilate_slice_def split: sum.splits)
  let ?d = "concat (dilate img [[1, 1], [1, 1]] 1)"
  have cc: "concat img = ?m" using as_image_concat [OF img] len by simp
  have "\<forall>row \<in> set img. \<forall>v \<in> set row. v \<le> 1"
  proof (intro ballI)
    fix row v assume "row \<in> set img" "v \<in> set row"
    then have "v \<in> set (concat img)" by auto
    then obtain x where "x \<in> set sl" "v = astype_uint8 x" unfolding cc by auto
    with bool show "v \<le> 1" by auto
  qed
  then have "list_all2 (list_all2 ?R) img (dilate img [[1, 1], [1, 1]] 1)"
    by (rule dilate_ones_rel)
  then have "list_all2 ?R (concat img) ?d" by (rule list_all2_concatI)
  then have "list_all2 (\<lambda>x b. ?R (astype_uint8 x) b) sl ?d"
    unfolding cc by (simp add: list_all2_map1)
  then have "list_all2 (\<lambda>x b. (x = 0 \<or> x = 1) \<and> ?R (astype_uint8 x) b) sl ?d"
    using bool by (simp add: list_all2_conv_all_nth)
  then have "list_all2 (\<lambda>x b. (x \<noteq> 0 \<longrightarrow> rat_of_nat b \<noteq> 0) \<and>
               (rat_of_nat b = 0 \<or> rat_of_nat b = 1)) sl ?d"
  proof (rule list_all2_mono)
    fix x :: rat and b :: nat
    assume h: "(x = 0 \<or> x = 1) \<and> astype_uint8 x \<le> b \<and> b \<le> 1"
    then have "b = 0 \<or> b = 1" by linarith
    with h show "(x \<noteq> 0 \<longrightarrow> rat_of_nat b \<noteq> 0) \<and> (rat_of_nat b = 0 \<or> rat_of_nat b = 1)"
      by auto
  qed
  then show ?thesis by (simp add: rd list_all2_map2)
qed

lemma dilate_mask_Inr:
  "dilate_mask t it = Inr g \<Longrightarrow> dtype g = dtype t \<and> shape g = shape t"
  by (auto simp: dilate_mask_def Let_def split: if_splits list.splits sum.splits)

lemma dilate_mask_BFloat16: "dtype t = BFloat16 \<Longrightarrow> dilate_mask t it = Inl TypeError"
  by (simp add: dilate_mask_def)




lemma dilate_mask_modelled:
  assumes "modelled t"
  shows "dilate_mask t it \<noteq> Inl Unmodelled"
proof
  assume u: "dilate_mask t it = Inl Unmodelled"
  then obtain n sh where sq: "squeeze (shape t) = n # sh"
    and c: "collect (map (dilate_slice sh it) (slices n (prod_list sh) (elems t))) = Inl Unmodelled"
    by (auto simp: dilate_mask_def Let_def split: if_splits list.splits sum.splits)
  from collect_Inl [OF c] obtain sl where "dilate_slice sh it sl = Inl Unmodelled" by blast
  moreover have "length sh \<le> 2" using assms sq by (simp add: modelled_def)
  moreover have "prod_list sh \<noteq> 0"
  proof -
    have "set sh \<subseteq> set (shape t)"
      using sq by (metis filter_is_subset set_subset_Cons squeeze_def subset_trans)
    then have "0 \<notin> set sh" using assms by (auto simp: modelled_def)
    then show ?thesis by (simp add: prod_list_zero_iff)
  qed
  ultimately show False using dilate_slice_modelled by blast
qed

lemma dilate_mask_bool:
  assumes wf: "wf_tensor t" and m: "is_mask t" and g: "dilate_mask t 1 = Inr g"
  shows "wf_tensor g" "is_mask g" "subset_mask t g"
proof -
  let ?R = "\<lambda>(x::rat) (y::rat). (x \<noteq> 0 \<longrightarrow> y \<noteq> 0) \<and> (y = 0 \<or> y = 1)"
  from g obtain n sh rs where sq: "squeeze (shape t) = n # sh"
    and c: "collect (map (dilate_slice sh 1) (slices n (prod_list sh) (elems t))) = Inr rs"
    and ge: "elems g = concat rs" and gs: "shape g = shape t"
    by (auto simp: dilate_mask_def Let_def split: if_splits list.splits sum.splits)
  let ?k = "prod_list sh"
  have "prod_list (squeeze (shape t)) = n * ?k" by (simp add: sq)
  then have len: "length (elems t) = n * ?k" using wf by (simp add: wf_tensor_def)
  have bool: "\<forall>x \<in> set (elems t). x = 0 \<or> x = 1"
    using m by (simp add: is_mask_def list_all_iff)
  have "list_all2 (\<lambda>sl r. dilate_slice sh 1 sl = Inr r) (slices n ?k (elems t)) rs"
    using c by (rule collect_Inr_all2)
  then have "list_all2 (list_all2 ?R) (slices n ?k (elems t)) rs"
  proof (rule list.rel_mono_strong)
    fix sl r assume sl: "sl \<in> set (slices n ?k (elems t))" and r: "dilate_slice sh 1 sl = Inr r"
    have "length sl = ?k" using length_slice [OF len sl] .
    moreover have "\<forall>x \<in> set sl. x = 0 \<or> x = 1" using set_slice [OF sl] bool by auto
    ultimately show "list_all2 ?R sl r" using r by (intro dilate_slice_bool)
  qed
  then have "list_all2 ?R (concat (slices n ?k (elems t))) (concat rs)"
    by (rule list_all2_concatI)
  then have rel: "list_all2 ?R (elems t) (elems g)"
    by (simp add: concat_slices_all [OF len] ge)
  then have "length (elems g) = length (elems t)" by (simp add: list_all2_lengthD)
  then show "wf_tensor g" using wf gs by (simp add: wf_tensor_def)
  show "is_mask g"
    using rel by (auto simp: is_mask_def list_all_length list_all2_conv_all_nth)
  show "subset_mask t g"
    using rel gs by (auto simp: subset_mask_def list_all2_conv_all_nth)
qed

section \<open>The thinner\<close>

lemma map_t_fields [simp]:
  "dtype (map_t f t) = dtype t" "shape (map_t f t) = shape t"
  "elems (map_t f t) = map f (elems t)"
  by (simp_all add: map_t_def)

lemma imap_t_fields [simp]:
  "dtype (imap_t f t) = dtype t" "shape (imap_t f t) = shape t"
  "elems (imap_t f t) = imap f (elems t)"
  by (simp_all add: imap_t_def)

lemma zip_t_fields [simp]:
  "dtype (zip_t f a b) = dtype a" "shape (zip_t f a b) = shape a"
  "elems (zip_t f a b) = map2 f (elems a) (elems b)"
  by (simp_all add: zip_t_def)

lemma binarize_fields [simp]:
  "dtype (binarize t) = dtype t" "shape (binarize t) = shape t"
  "elems (binarize t) = map (\<lambda>x. if x \<noteq> 0 then 1 else x) (elems t)"
  by (simp_all add: binarize_def)

lemma subset_mask_refl: "subset_mask m m"
  by (simp add: subset_mask_def list_all2_conv_all_nth)


lemma dropout_Inr:
  assumes "dropout d p u = Inr out"
  shows "dtype out = dtype d" "shape out = shape d" "length (elems out) = length (elems d)"
    and "i < length (elems d) \<Longrightarrow> elems out ! i \<noteq> 0 \<Longrightarrow> elems d ! i \<noteq> 0"
  using assms by (auto simp: dropout_def split: if_splits)

lemma dropout_returns: "0 \<le> p \<Longrightarrow> p \<le> 1 \<Longrightarrow> \<exists>out. dropout d p u = Inr out"
  by (simp add: dropout_def)

lemma binarize_mask: "is_mask t \<Longrightarrow> binarize t = t"
proof -
  assume "is_mask t"
  then have "map (\<lambda>x. if x \<noteq> 0 then 1 else x) (elems t) = elems t"
    by (auto simp: is_mask_def list_all_iff intro!: map_idI)
  then show ?thesis by (simp add: binarize_def map_t_def)
qed

lemma thin_Inr:
  assumes "thin d p u = Inr out"
  shows "dtype out = dtype d" "shape out = shape d" "length (elems out) = length (elems d)"
    and "i < length (elems d) \<Longrightarrow> elems out ! i = 0 \<or> elems out ! i = 1"
    and "i < length (elems d) \<Longrightarrow> elems out ! i \<noteq> 0 \<Longrightarrow> elems d ! i \<noteq> 0"
proof -
  from assms obtain m where m: "dropout d p u = Inr m" and out: "out = binarize m"
    by (auto simp: thin_def split: sum.splits)
  note dm = dropout_Inr [OF m]
  show "dtype out = dtype d" "shape out = shape d" "length (elems out) = length (elems d)"
    by (simp_all add: out dm)
  assume i: "i < length (elems d)"
  then show "elems out ! i = 0 \<or> elems out ! i = 1"
    by (simp add: out dm)
  assume "elems out ! i \<noteq> 0"
  then have "elems m ! i \<noteq> 0" using i by (simp add: out dm split: if_splits)
  then show "elems d ! i \<noteq> 0" using dm(4) i by blast
qed

lemma thin_returns: "0 \<le> p \<Longrightarrow> p \<le> 1 \<Longrightarrow> \<exists>out. thin d p u = Inr out"
  using dropout_returns [of p d u] by (auto simp: thin_def)

lemma thin_0: "thin d 0 u = Inr (binarize d)"
  by (simp add: thin_def dropout_def)

lemma thin_1: "thin d 1 u = Inr (binarize (map_t (\<lambda>x. x * 0) d))"
  by (simp add: thin_def dropout_def)

lemma all_false_thin_1: "all_false (binarize (map_t (\<lambda>x. x * 0) d))"
  by (simp add: all_false_def list_all_iff)

lemma subset_mask_thin: "thin d p u = Inr out \<Longrightarrow> subset_mask out d"
  using thin_Inr(2,3,5) [of d p u out]
  by (simp add: subset_mask_def list_all2_conv_all_nth)


section \<open>The scheduler step\<close>

lemma update_warmup: "iiter \<le> threshold s \<Longrightarrow> update s iiter u = (Inr (old_mask s), s)"
  by (simp add: update_def)


lemma snd_finish [simp]: "snd (finish s iiter u) = s"
  by (simp add: finish_def Let_def split: sum.splits)

lemma snd_update:
  "snd (update s iiter u) =
     (if threshold s < iiter \<and> step s \<noteq> 0 \<and> iter s < iiter_dil_of s iiter
      then (case dilate_mask (new_mask s) 1 of
              Inl e \<Rightarrow> s\<lparr>old_mask := new_mask s\<rparr>
            | Inr grown \<Rightarrow>
                s\<lparr>old_mask := new_mask s, new_mask := grown, iter := iiter_dil_of s iiter\<rparr>)
      else s)"
  by (simp add: update_def Let_def split: sum.splits)


lemma update_keeps_schedule [simp]:
  "threshold (snd (update s iiter u)) = threshold s" "step (snd (update s iiter u)) = step s"
  by (simp_all add: snd_update split: sum.split)




lemma mask_inv_init: "wf_tensor msk \<Longrightarrow> is_mask msk \<Longrightarrow> mask_inv (init msk thr st)"
  by (simp add: mask_inv_def init_def subset_mask_refl)

lemma snd_update_cases:
  obtains (same) "snd (update s iiter u) = s"
  | (failed) e where "dilate_mask (new_mask s) 1 = Inl e"
      "snd (update s iiter u) = s\<lparr>old_mask := new_mask s\<rparr>"
  | (grown) g where "dilate_mask (new_mask s) 1 = Inr g"
      "snd (update s iiter u) =
         s\<lparr>old_mask := new_mask s, new_mask := g, iter := iiter_dil_of s iiter\<rparr>"
      "threshold s < iiter" "step s \<noteq> 0" "iter s < iiter_dil_of s iiter"
proof (cases "threshold s < iiter \<and> step s \<noteq> 0 \<and> iter s < iiter_dil_of s iiter")
  case False
  then have "snd (update s iiter u) = s" by (auto simp: snd_update)
  then show ?thesis by (rule same)
next
  case True
  show ?thesis
  proof (cases "dilate_mask (new_mask s) 1")
    case (Inl e)
    then have "snd (update s iiter u) = s\<lparr>old_mask := new_mask s\<rparr>"
      using True by (simp add: snd_update)
    with Inl show ?thesis by (rule failed)
  next
    case (Inr g)
    then have "snd (update s iiter u) =
         s\<lparr>old_mask := new_mask s, new_mask := g, iter := iiter_dil_of s iiter\<rparr>"
      using True by (simp add: snd_update)
    with Inr show ?thesis using True by (intro grown) simp_all
  qed
qed

lemma mask_inv_update:
  assumes "mask_inv s"
  shows "mask_inv (snd (update s iiter u))"
proof (cases rule: snd_update_cases [of s iiter u])
  case same
  then show ?thesis using assms by simp
next
  case (failed e)
  then show ?thesis using assms by (simp add: mask_inv_def subset_mask_refl)
next
  case (grown g)
  have n: "wf_tensor (new_mask s)" "is_mask (new_mask s)"
    using assms by (simp_all add: mask_inv_def)
  note dilate_mask_bool [OF n grown(1)]
  then show ?thesis using n by (simp add: grown(2) mask_inv_def)
qed

lemma mask_inv_run: "mask_inv s \<Longrightarrow> mask_inv (run s calls)"
  by (induction s calls rule: run.induct) (simp_all add: mask_inv_update)



lemma modelled_update:
  assumes "modelled (new_mask s)"
  shows "modelled (new_mask (snd (update s iiter u)))"
proof (cases rule: snd_update_cases [of s iiter u])
  case (grown g)
  from dilate_mask_Inr [OF grown(1)] show ?thesis
    using assms by (simp add: grown(2) modelled_def)
qed (use assms in simp_all)

section \<open>Warm-up, frame and arguments\<close>

text \<open>
  Claim C3 (warm-up identity). For every iteration with \<open>iiter \<le> threshold\<close>, \<^verbatim>\<open>update\<close>
  returns exactly \<open>old_mask\<close> and leaves the scheduler as it was (fields \<open>old_mask\<close>,
  \<open>new_mask\<close> and \<open>iter\<close> included, so nothing is grown); the result does not depend on
  the random draws.
\<close>

theorem warmup_identity:
  "iiter \<le> threshold s \<Longrightarrow>
   update s iiter u = (Inr (old_mask s), s) \<and> update s iiter u' = update s iiter u"
  by (simp add: update_warmup)

theorem warmup_identity_witness:
  "(10::int) \<le> threshold epoch1_state \<and>
   update epoch1_state 10 draw_half = (Inr line_mask, epoch1_state) \<and>
   update epoch1_state 10 draw_zero = update epoch1_state 10 draw_half"
  using warmup_identity [of 10 epoch1_state draw_half draw_zero]
  by (simp add: epoch1_state_def)





text \<open>
  Claim C7 says that \<open>step = 0\<close> is rejected by the constructor so that no \<^verbatim>\<open>update\<close>
  reaches a division by zero. \<^verbatim>\<open>__init__\<close> checks nothing: the scheduler is built with
  \<open>step = 0\<close> and \<^verbatim>\<open>update(11)\<close> raises ZeroDivisionError.
\<close>

theorem construction_counterexample:
  "step (init line_mask 10 0) = 0 \<and>
   fst (update (init line_mask 10 0) 11 draw_half) = Inl ZeroDivisionError"
  by (simp add: init_def update_def)

text \<open>
  Claim C7 as amended. The constructor stores the threshold and the step it is given
  without any check; on a scheduler built with \<open>step = 0\<close> a call in the warm-up range
  returns the mask and a call past the threshold raises ZeroDivisionError, the scheduler
  unchanged in both cases.
\<close>

theorem construction_unchecked:
  "threshold (init msk thr st) = thr \<and> step (init msk thr st) = st \<and>
   update (init msk thr 0) iiter u =
     (if thr < iiter then Inl ZeroDivisionError else Inr msk, init msk thr 0)"
  by (simp add: init_def update_def)

theorem construction_unchecked_witness:
  "threshold (init line_mask (- 3) 0) = - 3 \<and> step (init line_mask (- 3) 0) = 0 \<and>
   update (init line_mask (- 3) 0) 2 draw_half = (Inl ZeroDivisionError, init line_mask (- 3) 0)"
  using construction_unchecked [of line_mask "- 3" 0 2 draw_half]
  by simp

text \<open>
  Claim C8 says that a negative iteration is rejected and returns no mask. \<^verbatim>\<open>update(-1)\<close>
  on a scheduler with threshold 10 returns the mask.
\<close>

theorem negative_iteration_counterexample:
  "fst (update (init line_mask 10 5) (- 1) draw_half) = Inr line_mask"
  by (simp add: init_def update_def)

text \<open>
  Claim C8 as amended. \<^verbatim>\<open>update\<close> does not check the sign of the iteration: with a
  threshold that is not negative, a negative iteration lies in the warm-up range, and the
  call returns \<open>old_mask\<close> and leaves the scheduler unchanged.
\<close>

theorem negative_iteration_accepted:
  "iiter < 0 \<Longrightarrow> 0 \<le> threshold s \<Longrightarrow> update s iiter u = (Inr (old_mask s), s)"
  by (simp add: update_warmup)

theorem negative_iteration_accepted_witness:
  "(- 7 :: int) < 0 \<and> 0 \<le> threshold epoch1_state \<and>
   update epoch1_state (- 7) draw_half = (Inr line_mask, epoch1_state)"
  using negative_iteration_accepted [of "- 7" epoch1_state draw_half]
  by (simp add: epoch1_state_def)

section \<open>The thinner subset law\<close>

text \<open>
  Claim C1 says that the thinner returns \<open>delta\<close> at fraction 1 and all-false at
  fraction 0. The second argument of the thinner is the drop probability of
  \<^verbatim>\<open>F.dropout\<close>: at 1 every sample is dropped, at 0 the output is \<open>delta\<close>.
\<close>

theorem thinner_counterexample:
  "thin line_mask 1 draw_zero =
     Inr \<lparr>dtype = Float32, shape = [1, 1, 8], elems = [0, 0, 0, 0, 0, 0, 0, 0]\<rparr> \<and>
   thin line_mask 0 draw_zero = Inr line_mask \<and> \<not> all_false line_mask"
  by code_simp

text \<open>
  Claim C1 as amended (invariant I3). For a boolean \<open>delta\<close> and a probability \<open>p\<close> in
  [0, 1] the thinner returns a sample-wise subset of \<open>delta\<close> of the same shape and dtype;
  with \<open>p = 0\<close> the output equals \<open>delta\<close> exactly, with \<open>p = 1\<close> it is all-false.
\<close>

theorem thinner_subset_law:
  assumes "is_mask delta" "0 \<le> p" "p \<le> 1"
  shows "\<exists>out. thin delta p u = Inr out \<and> subset_mask out delta \<and>
           dtype out = dtype delta \<and> shape out = shape delta \<and>
           (p = 0 \<longrightarrow> out = delta) \<and> (p = 1 \<longrightarrow> all_false out)"
proof -
  from thin_returns [OF assms(2,3)] obtain out where out: "thin delta p u = Inr out"
    by blast
  have "out = delta" if "p = 0"
    using out that assms(1) by (simp add: thin_0 binarize_mask)
  moreover have "all_false out" if "p = 1"
    using out that all_false_thin_1 [of delta] by (simp add: thin_1)
  ultimately show ?thesis
    using out subset_mask_thin [OF out] thin_Inr(1,2) [OF out] by blast
qed

theorem thinner_subset_law_witness:
  "is_mask line_grown \<and> (0::rat) \<le> 1 / 2 \<and> (1::rat) / 2 \<le> 1 \<and>
   (\<exists>out. thin line_grown (1 / 2) draw_zero = Inr out \<and> subset_mask out line_grown)"
proof -
  have m: "is_mask line_grown" by (simp add: is_mask_def line_grown_def)
  from thinner_subset_law [OF m, of "1 / 2" draw_zero] m show ?thesis by auto
qed

section \<open>The epoch counter\<close>







lemma refused_update:
  "dilate_mask msk 1 = Inl e \<Longrightarrow>
   snd (update (init msk thr st) iiter u) = init msk thr st"
  by (cases rule: snd_update_cases [of "init msk thr st" iiter u]) (simp_all add: init_def)

lemma refused_run:
  "dilate_mask msk 1 = Inl e \<Longrightarrow> run (init msk thr st) calls = init msk thr st"
  by (induction calls) (auto simp: refused_update)




lemma refused_line: "dilate_mask line_mask 1 = Inl Cv2Error"
  by code_simp


section \<open>The effective mask\<close>






text \<open>
  Claim C4 (invariant I1). The grower is extensive: where it returns, the dilation of a
  boolean mask is boolean and contains the mask. On a scheduler built from a boolean
  mask, after every run of \<^verbatim>\<open>update\<close> calls (any iterations, any draws, any threshold and
  step, the calls in which the grower raises included) \<open>old_mask\<close> is a sample-wise subset
  of \<open>new_mask\<close>.
\<close>

theorem mask_subset_invariant:
  assumes "wf_tensor msk" "is_mask msk" "modelled msk"
  shows "(\<forall>g. dilate_mask msk 1 = Inr g \<longrightarrow> is_mask g \<and> subset_mask msk g) \<and>
         subset_mask (old_mask (run (init msk thr st) calls))
           (new_mask (run (init msk thr st) calls))"
  using mask_inv_run [OF mask_inv_init [OF assms(1,2)]] dilate_mask_bool [OF assms(1,2)]
  by (simp add: mask_inv_def del: One_nat_def)

theorem mask_subset_invariant_witness:
  "wf_tensor dot_mask \<and> is_mask dot_mask \<and> modelled dot_mask \<and>
   dilate_mask dot_mask 1 = Inr dot_grown \<and> subset_mask dot_mask dot_grown \<and>
   run (init dot_mask 10 5) [(11, draw_zero), (3, draw_half), (16, draw_half)] =
     \<lparr>threshold = 10, step = 5, iter = 2, new_mask = dot_grown2, old_mask = dot_grown\<rparr> \<and>
   subset_mask dot_grown dot_grown2 \<and>
   wf_tensor line_mask \<and> is_mask line_mask \<and> modelled line_mask \<and>
   run (init line_mask 10 5) [(11, draw_zero), (16, draw_half)] = init line_mask 10 5 \<and>
   subset_mask (old_mask (init line_mask 10 5)) (new_mask (init line_mask 10 5))"
proof -
  have wf: "wf_tensor dot_mask" by (simp add: wf_tensor_def dot_mask_def)
  have m: "is_mask dot_mask" by (simp add: is_mask_def dot_mask_def)
  have md: "modelled dot_mask" by (simp add: modelled_def dot_mask_def squeeze_def)
  have g: "dilate_mask dot_mask 1 = Inr dot_grown" by code_simp
  have val: "run (init dot_mask 10 5) [(11, draw_zero), (3, draw_half), (16, draw_half)] =
     \<lparr>threshold = 10, step = 5, iter = 2, new_mask = dot_grown2, old_mask = dot_grown\<rparr>"
    by code_simp
  from mask_subset_invariant [OF wf m md, of 10 5 "[(11, draw_zero), (3, draw_half), (16, draw_half)]"]
  have 1: "subset_mask dot_mask dot_grown \<and> subset_mask dot_grown dot_grown2"
    unfolding val using g by simp
  have wfl: "wf_tensor line_mask" by (simp add: wf_tensor_def line_mask_def)
  have ml: "is_mask line_mask" by (simp add: is_mask_def line_mask_def)
  have mdl: "modelled line_mask" by (simp add: modelled_def line_mask_def squeeze_def)
  have vall: "run (init line_mask 10 5) [(11, draw_zero), (16, draw_half)] = init line_mask 10 5"
    by (rule refused_run [OF refused_line])
  from mask_subset_invariant [OF wfl ml mdl, of 10 5 "[(11, draw_zero), (16, draw_half)]"]
  have 2: "subset_mask (old_mask (init line_mask 10 5)) (new_mask (init line_mask 10 5))"
    unfolding vall by simp
  show ?thesis using wf m md g val 1 wfl ml mdl vall 2 by simp
qed

section \<open>The grower on the store\<close>

lemma length_store_slice [simp]: "length (store_slice h r i k sl) = length h"
  by (simp add: store_slice_def)

lemma nth_store_slice_other [simp]: "a \<noteq> r \<Longrightarrow> store_slice h r i k sl ! a = h ! a"
  by (simp add: store_slice_def)

lemma store_slice_fields [simp]:
  "r < length h \<Longrightarrow> dtype (store_slice h r i k sl ! r) = dtype (h ! r)"
  "r < length h \<Longrightarrow> shape (store_slice h r i k sl ! r) = shape (h ! r)"
  by (simp_all add: store_slice_def)

lemma length_dilate_loop [simp]:
  "length (snd (dilate_loop h src res sh it ixs)) = length h"
  by (induction ixs arbitrary: h) (simp_all split: sum.splits)


lemma dilate_loop_fields:
  "res < length h \<Longrightarrow>
   dtype (snd (dilate_loop h src res sh it ixs) ! res) = dtype (h ! res) \<and>
   shape (snd (dilate_loop h src res sh it ixs) ! res) = shape (h ! res)"
  by (induction ixs arbitrary: h) (simp_all split: sum.splits)





lemma store_slice_elems:
  "r < length h \<Longrightarrow>
   elems (store_slice h r i k sl ! r) =
     take (i * k) (elems (h ! r)) @ sl @ drop (i * k + k) (elems (h ! r))"
  by (simp add: store_slice_def)

text \<open>The loop over the slices from \<open>j\<close> on agrees with \<open>collect\<close>: it stops at the first
  exception, and otherwise has written the results behind the first \<open>j\<close> slices.\<close>

lemma dilate_loop_collect:
  assumes "src \<noteq> res" "res < length h" "length (elems (h ! src)) = n * prod_list sh"
    and "length (elems (h ! res)) = n * prod_list sh" "j \<le> n"
  shows "case collect (map (\<lambda>i. dilate_slice sh it
                 (take (prod_list sh) (drop (i * prod_list sh) (elems (h ! src))))) [j..<n]) of
           Inl e \<Rightarrow> fst (dilate_loop h src res sh it [j..<n]) = Some e
         | Inr rs \<Rightarrow> fst (dilate_loop h src res sh it [j..<n]) = None \<and>
             elems (snd (dilate_loop h src res sh it [j..<n]) ! res) =
               take (j * prod_list sh) (elems (h ! res)) @ concat rs"
  using assms
proof (induction "n - j" arbitrary: j h)
  case 0
  then have "j = n" by simp
  then show ?case using "0.prems" by simp
next
  case (Suc d)
  let ?k = "prod_list sh"
  let ?xs = "elems (h ! src)" and ?ys = "elems (h ! res)"
  let ?f = "\<lambda>h i. dilate_slice sh it (take ?k (drop (i * ?k) (elems (h ! src))))"
  from Suc.hyps(2) have jn: "j < n" by simp
  then have upt: "[j..<n] = j # [Suc j..<n]" by (simp add: upt_conv_Cons)
  have "Suc j * ?k \<le> n * ?k" using jn by (intro mult_le_mono1) simp
  then have fit: "j * ?k + ?k \<le> n * ?k" by simp
  show ?case
  proof (cases "?f h j")
    case (Inl e)
    then show ?thesis by (simp add: upt)
  next
    case (Inr sl)
    have "length (take ?k (drop (j * ?k) ?xs)) = ?k"
      using fit Suc.prems(3) by simp
    then have lsl: "length sl = ?k" using dilate_slice_length [OF Inr] by simp
    let ?h1 = "store_slice h res j ?k sl"
    have src1: "?h1 ! src = h ! src" using Suc.prems(1) by simp
    have ys1: "elems (?h1 ! res) = take (j * ?k) ?ys @ sl @ drop (j * ?k + ?k) ?ys"
      using Suc.prems(2) by (rule store_slice_elems)
    define A where "A = take (j * ?k) ?ys"
    define B where "B = drop (j * ?k + ?k) ?ys"
    have lA: "length A = j * ?k" using fit Suc.prems(4) by (simp add: A_def)
    have lB: "length B = n * ?k - (j * ?k + ?k)" using Suc.prems(4) by (simp add: B_def)
    have ys1': "elems (?h1 ! res) = (A @ sl) @ B" by (simp add: ys1 A_def B_def)
    have lAs: "length (A @ sl) = Suc j * ?k" by (simp add: lA lsl)
    have len1: "length (elems (?h1 ! res)) = n * ?k"
      unfolding ys1' length_append lA lB lsl using fit by linarith
    have "take (length (A @ sl)) ((A @ sl) @ B) = A @ sl" by simp
    then have tk: "take (Suc j * ?k) (elems (?h1 ! res)) = take (j * ?k) ?ys @ sl"
      unfolding ys1' lAs by (simp add: A_def)
    have IH: "case collect (map (?f ?h1) [Suc j..<n]) of
           Inl e \<Rightarrow> fst (dilate_loop ?h1 src res sh it [Suc j..<n]) = Some e
         | Inr rs \<Rightarrow> fst (dilate_loop ?h1 src res sh it [Suc j..<n]) = None \<and>
             elems (snd (dilate_loop ?h1 src res sh it [Suc j..<n]) ! res) =
               take (Suc j * ?k) (elems (?h1 ! res)) @ concat rs"
    proof (rule Suc.hyps(1))
      show "d = n - Suc j" using Suc.hyps(2) by simp
      show "src \<noteq> res" by (rule Suc.prems(1))
      show "res < length ?h1" using Suc.prems(2) by simp
      show "length (elems (?h1 ! src)) = n * ?k" using Suc.prems(3) by (simp add: src1)
      show "length (elems (?h1 ! res)) = n * ?k" by (rule len1)
      show "Suc j \<le> n" using jn by simp
    qed
    have step: "dilate_loop h src res sh it [j..<n] = dilate_loop ?h1 src res sh it [Suc j..<n]"
      using Inr by (simp add: upt)
    have coll: "collect (map (?f h) [j..<n]) =
      (case collect (map (?f ?h1) [Suc j..<n]) of Inl e \<Rightarrow> Inl e | Inr vs \<Rightarrow> Inr (sl # vs))"
      using Inr by (simp add: upt src1)
    show ?thesis
    proof (cases "collect (map (?f ?h1) [Suc j..<n])")
      case (Inl e)
      then show ?thesis using IH by (simp add: step coll)
    next
      case (Inr rs)
      then show ?thesis using IH tk by (simp add: step coll)
    qed
  qed
qed


text \<open>The array the store version returns holds the value \<open>dilate_mask\<close> computes, and
  both raise the same exception.\<close>

lemma dilate_mask_heap_value:
  assumes "msk < length h" "wf_tensor (h ! msk)"
    and "dilate_mask_heap h msk it = Some (r, h')"
  shows "case r of
           Inl e \<Rightarrow> dilate_mask (h ! msk) it = Inl e
         | Inr res \<Rightarrow> dilate_mask (h ! msk) it = Inr (h' ! res)"
proof (cases "dtype (h ! msk) = BFloat16")
  case True
  then have "dilate_mask_heap h msk it = Some (Inl TypeError, h @ [h ! msk])"
    using assms(1) by (simp add: dilate_mask_heap_def alloc_def Let_def)
  then show ?thesis using assms(3) True by (auto simp: dilate_mask_def)
next
  case False
  let ?m = "h ! msk"
  let ?np = "length h" and ?res = "Suc (length h)"
  let ?c = "?m\<lparr>shape := squeeze (shape ?m)\<rparr>"
  let ?h3 = "h @ [?c, map_t (\<lambda>_. 0) ?c]"
  show ?thesis
  proof (cases "squeeze (shape ?m)")
    case Nil
    then have "dilate_mask_heap h msk it = Some (Inl IndexError, ?h3)"
      using assms(1) False
      by (simp add: dilate_mask_heap_def alloc_def Let_def nth_append list_update_append)
    then show ?thesis using assms(3) False Nil by (auto simp: dilate_mask_def)
  next
    case (Cons n sh)
    let ?k = "prod_list sh"
    let ?l = "dilate_loop ?h3 ?np ?res sh it [0..<n]"
    let ?h4 = "snd ?l"
    have run: "dilate_mask_heap h msk it =
      (case fst ?l of
         Some e \<Rightarrow> Some (Inl e, ?h4)
       | None \<Rightarrow> Some (Inr ?res,
           ?h4[?res := (?h4 ! ?res)\<lparr>shape := shape ?m, dtype := dtype ?m\<rparr>]))"
      using assms(1) False Cons
      by (simp add: dilate_mask_heap_def alloc_def Let_def nth_append list_update_append
          split: prod.splits option.splits)
    have "prod_list (squeeze (shape ?m)) = n * ?k" by (simp add: Cons)
    then have len: "length (elems ?m) = n * ?k"
      using assms(2) by (simp add: wf_tensor_def)
    have src: "?h3 ! ?np = ?c" and res: "?h3 ! ?res = map_t (\<lambda>_. 0) ?c"
      by (simp_all add: nth_append)
    have col: "map (\<lambda>i. dilate_slice sh it (take ?k (drop (i * ?k) (elems (?h3 ! ?np))))) [0..<n]
          = map (dilate_slice sh it) (slices n ?k (elems ?m))"
      by (simp add: src slices_def comp_def)
    have "case collect (map (\<lambda>i. dilate_slice sh it
                 (take ?k (drop (i * ?k) (elems (?h3 ! ?np))))) [0..<n]) of
           Inl e \<Rightarrow> fst ?l = Some e
         | Inr rs \<Rightarrow> fst ?l = None \<and>
             elems (?h4 ! ?res) = take (0 * ?k) (elems (?h3 ! ?res)) @ concat rs"
    proof (rule dilate_loop_collect)
      show "length (elems (?h3 ! ?np)) = n * ?k" using len by (simp add: src)
      show "length (elems (?h3 ! ?res)) = n * ?k" using len by (simp add: res)
    qed simp_all
    then have loop: "case collect (map (dilate_slice sh it) (slices n ?k (elems ?m))) of
           Inl e \<Rightarrow> fst ?l = Some e
         | Inr rs \<Rightarrow> fst ?l = None \<and> elems (?h4 ! ?res) = concat rs"
      unfolding col by (cases "collect (map (dilate_slice sh it) (slices n ?k (elems ?m)))") simp_all
    have val: "dilate_mask ?m it =
      (case collect (map (dilate_slice sh it) (slices n ?k (elems ?m))) of
         Inl e \<Rightarrow> Inl e
       | Inr rs \<Rightarrow> Inr \<lparr>dtype = dtype ?m, shape = shape ?m, elems = concat rs\<rparr>)"
      using False Cons by (simp add: dilate_mask_def)
    show ?thesis
    proof (cases "collect (map (dilate_slice sh it) (slices n ?k (elems ?m)))")
      case (Inl e)
      then have "fst ?l = Some e" using loop by simp
      then have "r = Inl e" using run assms(3) by simp
      then show ?thesis using val Inl by simp
    next
      case (Inr rs)
      then have l: "fst ?l = None" "elems (?h4 ! ?res) = concat rs" using loop by simp_all
      let ?h' = "?h4[?res := (?h4 ! ?res)\<lparr>shape := shape ?m, dtype := dtype ?m\<rparr>]"
      have "r = Inr ?res" "h' = ?h'" using run assms(3) l(1) by simp_all
      moreover have "?h' ! ?res = \<lparr>dtype = dtype ?m, shape = shape ?m, elems = concat rs\<rparr>"
        using l(2) by simp
      ultimately show ?thesis using val Inr by simp
    qed
  qed
qed

section \<open>The end-to-end scenario\<close>







end
